theory Spec2Isabelle
  imports Main
begin

section \<open>Values, promises and the module state\<close>

text \<open>
  The workshop's streaming helper is four TypeScript functions and one module-level map:
  \<^verbatim>\<open>
  export type Streamable<T> = T | Promise<T>;
  export function useStreamable<T>(streamable: Streamable<T>, key: string): T {
    console.log("useStreamable", key);
    if(!isPromise(streamable)) {
      return streamable;
    }
    if(!promiseCache.has(key)) {
      console.log("first time using streamable", key);
      promiseCache.set(key, Promise.resolve(streamable));
    }
    return use(promiseCache.get(key) as Promise<T>);
  }
  function isPromise<T>(value: Streamable<T>): value is Promise<T> {
    return value instanceof Promise;
  }
  const promiseCache = new Map<string, Promise<unknown>>();
  \<close>
  A promise is an object with identity and a mutable one-shot state, so promises live in
  an explicit store and a value refers to one by its address.
\<close>

type_synonym pid = nat

text \<open>
  The values a caller can hand over: plain data, an object that merely has a
  \<^verbatim>\<open>then\<close> method (built without the Promise constructor; a promise of another
  realm is one of these), an Error object, a promise built by the \<^verbatim>\<open>Promise\<close>
  constructor itself, or an instance of a class that extends \<^verbatim>\<open>Promise\<close>. The
  last two answer \<^verbatim>\<open>instanceof Promise\<close>; only for the first of them is
  \<^verbatim>\<open>constructor\<close> the \<^verbatim>\<open>Promise\<close> function. Both live in the promise
  store.
\<close>

datatype 'a jsval =
    Data 'a
  | Thenable 'a
  | ErrorObj string
  | PromiseObj pid
  | SubPromiseObj pid

datatype 'a pstate = Pending | Fulfilled "'a jsval" | Rejected "'a jsval"

text \<open>
  The state the functions act on: the module's \<^verbatim>\<open>promiseCache\<close> (a
  \<^verbatim>\<open>Map<string, Promise<unknown>>\<close>), the store of promise objects with the next
  unused address, and the console, one entry per \<^verbatim>\<open>console.log\<close> call.
\<close>

record 'a state =
  promiseCache :: "string \<rightharpoonup> pid"
  promises :: "pid \<Rightarrow> 'a pstate"
  next_pid :: pid
  console :: "(string \<times> string) list"

text \<open>The state when the module has just been loaded: \<^verbatim>\<open>new Map()\<close>, nothing logged.\<close>

definition initial :: "(pid \<Rightarrow> 'a pstate) \<Rightarrow> pid \<Rightarrow> 'a state" where
  "initial h n = \<lparr>promiseCache = Map.empty, promises = h, next_pid = n, console = []\<rparr>"

definition console_log :: "string \<times> string \<Rightarrow> 'a state \<Rightarrow> 'a state" where
  "console_log entry s = s\<lparr>console := console s @ [entry]\<rparr>"

text \<open>\<^verbatim>\<open>Map.prototype.has\<close>, \<^verbatim>\<open>get\<close> and \<^verbatim>\<open>set\<close> on the cache.\<close>

definition has :: "'a state \<Rightarrow> string \<Rightarrow> bool" where
  "has s key = (promiseCache s key \<noteq> None)"

definition get :: "'a state \<Rightarrow> string \<Rightarrow> pid option" where
  "get s key = promiseCache s key"

definition set_entry :: "string \<Rightarrow> pid \<Rightarrow> 'a state \<Rightarrow> 'a state" where
  "set_entry key p s = s\<lparr>promiseCache := (promiseCache s)(key \<mapsto> p)\<rparr>"

text \<open>\<^verbatim>\<open>value instanceof Promise\<close>\<close>

fun isPromise :: "'a jsval \<Rightarrow> bool" where
  "isPromise (PromiseObj p) = True"
| "isPromise (SubPromiseObj p) = True"
| "isPromise v = False"

text \<open>
  The language's \<^verbatim>\<open>Promise.resolve(x)\<close>: \<open>x\<close> is returned as it is only when
  it is a promise whose \<^verbatim>\<open>constructor\<close> is \<^verbatim>\<open>Promise\<close>. Any other value
  gets a new promise object at the next unused address: already fulfilled with the value,
  or still pending when the value has a \<^verbatim>\<open>then\<close> that is yet to be called, which
  is the case of a thenable and of an instance of a subclass of \<^verbatim>\<open>Promise\<close>.
\<close>

definition Promise_resolve :: "'a jsval \<Rightarrow> 'a state \<Rightarrow> pid \<times> 'a state" where
  "Promise_resolve x s =
     (case x of
        PromiseObj p \<Rightarrow> (p, s)
      | SubPromiseObj q \<Rightarrow>
          (next_pid s,
           s\<lparr>promises := (promises s)(next_pid s := Pending), next_pid := Suc (next_pid s)\<rparr>)
      | Thenable t \<Rightarrow>
          (next_pid s,
           s\<lparr>promises := (promises s)(next_pid s := Pending), next_pid := Suc (next_pid s)\<rparr>)
      | v \<Rightarrow>
          (next_pid s,
           s\<lparr>promises := (promises s)(next_pid s := Fulfilled v), next_pid := Suc (next_pid s)\<rparr>))"

text \<open>
  What a resolution hands back to the render pass. The source throws for the last two;
  here they are values: the value is ready, the pass suspends on a promise, or the pass
  fails with an error.
\<close>

datatype 'a outcome = Ready "'a jsval" | Suspend pid | Failed "'a jsval"

text \<open>
  Modelled from the spec: the rendering engine's \<^verbatim>\<open>use\<close> is imported from the
  framework and is not part of the repository. It reads a promise: the fulfilled value is
  returned, a rejection is thrown as the render-time failure, and an unsettled promise
  suspends the render pass on that promise. Handed \<^verbatim>\<open>undefined\<close> it throws.
  The engine's own bookkeeping of which promises it has seen is left out: the outcome is
  read from the promise's state.
\<close>

definition use :: "'a state \<Rightarrow> pid option \<Rightarrow> 'a outcome" where
  "use s arg =
     (case arg of
        None \<Rightarrow> Failed (ErrorObj ''An unsupported type was passed to use(): undefined'')
      | Some p \<Rightarrow>
          (case promises s p of
             Fulfilled v \<Rightarrow> Ready v
           | Rejected e \<Rightarrow> Failed e
           | Pending \<Rightarrow> Suspend p))"

section \<open>The resolver\<close>

text \<open>
  The cache step of \<^verbatim>\<open>useStreamable\<close>, the spec's \<^verbatim>\<open>get_or_create\<close>: test
  \<^verbatim>\<open>has\<close>, log and \<^verbatim>\<open>set\<close> only when the key is absent, then \<^verbatim>\<open>get\<close>.
\<close>

definition get_or_create :: "string \<Rightarrow> 'a jsval \<Rightarrow> 'a state \<Rightarrow> pid option \<times> 'a state" where
  "get_or_create key streamable s =
     (let s' =
        (if \<not> has s key then
           (let s1 = console_log (''first time using streamable'', key) s;
                (p, s2) = Promise_resolve streamable s1
            in set_entry key p s2)
         else s)
      in (get s' key, s'))"

definition useStreamable :: "'a jsval \<Rightarrow> string \<Rightarrow> 'a state \<Rightarrow> 'a outcome \<times> 'a state" where
  "useStreamable streamable key s =
     (let s0 = console_log (''useStreamable'', key) s in
      if \<not> isPromise streamable then (Ready streamable, s0)
      else (let (c, s1) = get_or_create key streamable s0 in (use s1 c, s1)))"

section \<open>The boundary wrapper\<close>

text \<open>
  \<^verbatim>\<open>
  function UseStreamable<T>({ value, children, queryKey }) {
    return children(useStreamable(value, queryKey));
  }
  export function Stream<T>({ value, fallback, children, queryKey }) {
    return (
      <Suspense fallback={fallback}>
        <UseStreamable value={value} queryKey={queryKey}>{children}</UseStreamable>
      </Suspense>
    );
  }
  \<close>
  \<open>Stream\<close> only builds an element tree; the engine renders it. An element is a
  suspend boundary around a child, or the \<open>UseStreamable\<close> component with its props.
  \<open>'n\<close> is the type of the views (\<^verbatim>\<open>React.ReactNode\<close>); the optional
  \<^verbatim>\<open>fallback\<close> is an \<open>option\<close>.
\<close>

datatype ('a, 'n) element =
    SuspenseEl "'n option" "('a, 'n) element"
  | UseStreamableEl "'a jsval" "'a jsval \<Rightarrow> 'n" string

text \<open>What rendering an element gives: a view on screen, a suspension or an error thrown upwards.\<close>

datatype ('a, 'n) rendered = Shown "'n option" | Suspended pid | Thrown "'a jsval"

definition UseStreamable ::
  "'a jsval \<Rightarrow> ('a jsval \<Rightarrow> 'n) \<Rightarrow> string \<Rightarrow> 'a state \<Rightarrow> ('a, 'n) rendered \<times> 'a state" where
  "UseStreamable value children queryKey s =
     (case useStreamable value queryKey s of
        (Ready v, s') \<Rightarrow> (Shown (Some (children v)), s')
      | (Suspend p, s') \<Rightarrow> (Suspended p, s')
      | (Failed e, s') \<Rightarrow> (Thrown e, s'))"

definition Stream ::
  "'a jsval \<Rightarrow> 'n option \<Rightarrow> ('a jsval \<Rightarrow> 'n) \<Rightarrow> string \<Rightarrow> ('a, 'n) element" where
  "Stream value fallback children queryKey =
     SuspenseEl fallback (UseStreamableEl value children queryKey)"

text \<open>
  Modelled from the spec: the engine's rendering of a suspend boundary is the framework's,
  not the repository's. A boundary renders its child; when the child suspends, the
  boundary catches the suspension and shows its fallback; a view or a thrown error of the
  child passes through (errors belong to an error boundary further up).
\<close>

fun render :: "('a, 'n) element \<Rightarrow> 'a state \<Rightarrow> ('a, 'n) rendered \<times> 'a state" where
  "render (UseStreamableEl v ch k) s = UseStreamable v ch k s"
| "render (SuspenseEl fb child) s =
     (case render child s of
        (Suspended p, s') \<Rightarrow> (Shown fb, s')
      | (r, s') \<Rightarrow> (r, s'))"

section \<open>Sessions: resolution attempts and settlements\<close>

text \<open>
  Modelled from the spec: promises are settled by the language runtime on behalf of the
  producer, outside the repository. A promise is one-shot: settling changes a pending
  promise and leaves a settled one as it is.
\<close>

definition settle :: "pid \<Rightarrow> 'a pstate \<Rightarrow> 'a state \<Rightarrow> 'a state" where
  "settle p st s = (if promises s p = Pending then s\<lparr>promises := (promises s)(p := st)\<rparr> else s)"

text \<open>
  A session is a sequence of events on the shared state: a resolution attempt (a call of
  \<open>useStreamable\<close>, whose outcome the render pass consumes), or a promise that fulfils
  or rejects in between.
\<close>

datatype 'a event = Attempt "'a jsval" string | Fulfil pid "'a jsval" | Reject pid "'a jsval"

fun step :: "'a event \<Rightarrow> 'a state \<Rightarrow> 'a state" where
  "step (Attempt x k) s = snd (useStreamable x k s)"
| "step (Fulfil p v) s = settle p (Fulfilled v) s"
| "step (Reject p e) s = settle p (Rejected e) s"

definition run :: "'a event list \<Rightarrow> 'a state \<Rightarrow> 'a state" where
  "run evs s = fold step evs s"

text \<open>An event of a session that keeps to one key: its attempts, and any settlement.\<close>

fun for_key :: "string \<Rightarrow> 'a event \<Rightarrow> bool" where
  "for_key k (Attempt x k') = (k' = k)"
| "for_key k (Fulfil p v) = True"
| "for_key k (Reject p e) = True"

text \<open>
  How often the wrapper-creating branch ran for a key: the source logs
  \<^verbatim>\<open>"first time using streamable"\<close> exactly there, next to the
  \<^verbatim>\<open>Promise.resolve\<close> and the \<^verbatim>\<open>set\<close>.
\<close>

definition creations :: "string \<Rightarrow> 'a state \<Rightarrow> nat" where
  "creations k s = count_list (console s) (''first time using streamable'', k)"

section \<open>Basic facts\<close>

lemma useStreamable_sync:
  "\<not> isPromise v \<Longrightarrow>
     useStreamable v k s = (Ready v, s\<lparr>console := console s @ [(''useStreamable'', k)]\<rparr>)"
  by (simp add: useStreamable_def console_log_def)

lemma get_or_create_hit:
  "promiseCache s k = Some p \<Longrightarrow> get_or_create k x s = (Some p, s)"
  by (simp add: get_or_create_def has_def get_def)

lemma get_or_create_miss:
  "promiseCache s k = None \<Longrightarrow>
     get_or_create k (PromiseObj q) s =
       (Some q, s\<lparr>promiseCache := (promiseCache s)(k \<mapsto> q),
                  console := console s @ [(''first time using streamable'', k)]\<rparr>)"
  by (simp add: get_or_create_def has_def get_def Promise_resolve_def set_entry_def
      console_log_def)

lemma get_or_create_miss_sub:
  "promiseCache s k = None \<Longrightarrow>
     get_or_create k (SubPromiseObj q) s =
       (Some (next_pid s),
        s\<lparr>promiseCache := (promiseCache s)(k \<mapsto> next_pid s),
          promises := (promises s)(next_pid s := Pending),
          next_pid := Suc (next_pid s),
          console := console s @ [(''first time using streamable'', k)]\<rparr>)"
  by (simp add: get_or_create_def has_def get_def Promise_resolve_def set_entry_def
      console_log_def)

lemma use_console [simp]: "use (s\<lparr>console := c\<rparr>) a = use s a"
  by (cases a) (simp_all add: use_def)

lemma use_cache [simp]: "use (s\<lparr>promiseCache := c\<rparr>) a = use s a"
  by (cases a) (simp_all add: use_def)

lemma use_next_pid [simp]: "use (s\<lparr>next_pid := n\<rparr>) a = use s a"
  by (cases a) (simp_all add: use_def)

lemma useStreamable_hit:
  "isPromise x \<Longrightarrow> promiseCache s k = Some p \<Longrightarrow>
     useStreamable x k s =
       (use s (Some p), s\<lparr>console := console s @ [(''useStreamable'', k)]\<rparr>)"
  by (simp add: useStreamable_def console_log_def get_or_create_hit)

lemma useStreamable_miss:
  "promiseCache s k = None \<Longrightarrow>
     useStreamable (PromiseObj q) k s =
       (use s (Some q),
        s\<lparr>promiseCache := (promiseCache s)(k \<mapsto> q),
          console := console s @ [(''useStreamable'', k), (''first time using streamable'', k)]\<rparr>)"
  by (simp add: useStreamable_def console_log_def get_or_create_miss)

lemma useStreamable_miss_sub:
  "promiseCache s k = None \<Longrightarrow>
     useStreamable (SubPromiseObj q) k s =
       (Suspend (next_pid s),
        s\<lparr>promiseCache := (promiseCache s)(k \<mapsto> next_pid s),
          promises := (promises s)(next_pid s := Pending),
          next_pid := Suc (next_pid s),
          console := console s @ [(''useStreamable'', k), (''first time using streamable'', k)]\<rparr>)"
  by (simp add: useStreamable_def console_log_def get_or_create_miss_sub use_def)

lemmas useStreamable_eqs =
  useStreamable_sync useStreamable_hit useStreamable_miss useStreamable_miss_sub

lemma useStreamable_cache_other:
  "k' \<noteq> k \<Longrightarrow> promiseCache (snd (useStreamable x k' s)) k = promiseCache s k"
  by (cases x; cases "promiseCache s k'") (simp_all add: useStreamable_eqs)

lemma useStreamable_cache_keeps:
  "promiseCache s k = Some p \<Longrightarrow> promiseCache (snd (useStreamable x k' s)) k = Some p"
  by (cases x; cases "promiseCache s k'") (auto simp add: useStreamable_eqs)

lemma useStreamable_creations:
  "creations k (snd (useStreamable x k' s)) =
     creations k s + (if isPromise x \<and> k' = k \<and> promiseCache s k = None then 1 else 0)"
  by (cases x; cases "promiseCache s k'") (auto simp add: useStreamable_eqs creations_def)

text \<open>The promise store: only a subclass instance under an absent key makes the resolver allocate.\<close>

lemma useStreamable_direct_frame:
  "\<forall>q. x \<noteq> SubPromiseObj q \<Longrightarrow>
     promises (snd (useStreamable x k s)) = promises s
     \<and> next_pid (snd (useStreamable x k s)) = next_pid s"
  by (cases x; cases "promiseCache s k") (simp_all add: useStreamable_eqs)

lemma useStreamable_hit_frame:
  "promiseCache s k = Some p \<Longrightarrow>
     promises (snd (useStreamable x k s)) = promises s
     \<and> next_pid (snd (useStreamable x k s)) = next_pid s"
  by (cases x) (simp_all add: useStreamable_eqs)

lemma useStreamable_next_pid_le:
  "next_pid s \<le> next_pid (snd (useStreamable x k s))
   \<and> next_pid (snd (useStreamable x k s)) \<le> Suc (next_pid s)"
  by (cases x; cases "promiseCache s k") (simp_all add: useStreamable_eqs)

lemma useStreamable_promises_below:
  "p < next_pid s \<Longrightarrow> promises (snd (useStreamable x k s)) p = promises s p"
  by (cases x; cases "promiseCache s k") (simp_all add: useStreamable_eqs)

lemma useStreamable_promises_idle:
  "promises s (next_pid s) = Pending \<Longrightarrow> promises (snd (useStreamable x k s)) = promises s"
  by (cases x; cases "promiseCache s k") (auto simp add: useStreamable_eqs)

lemma settle_frame [simp]:
  "promiseCache (settle p st s) = promiseCache s"
  "next_pid (settle p st s) = next_pid s"
  "console (settle p st s) = console s"
  by (simp_all add: settle_def)

lemma settle_creations [simp]: "creations k (settle p st s) = creations k s"
  by (simp add: creations_def)

lemma settle_settled:
  "promises s p \<noteq> Pending \<Longrightarrow> promises (settle q st s) p = promises s p"
  by (auto simp add: settle_def)

lemma step_cache_keeps:
  "promiseCache s k = Some p \<Longrightarrow> promiseCache (step ev s) k = Some p"
  by (cases ev) (simp_all add: useStreamable_cache_keeps)

lemma step_next_pid_le: "next_pid s \<le> next_pid (step ev s)"
  by (cases ev) (simp_all add: useStreamable_next_pid_le)

lemma step_settled:
  "p < next_pid s \<Longrightarrow> promises s p \<noteq> Pending \<Longrightarrow> promises (step ev s) p = promises s p"
  by (cases ev) (simp_all add: settle_settled useStreamable_promises_below)

lemma run_Nil [simp]: "run [] s = s"
  by (simp add: run_def)

lemma run_Cons [simp]: "run (ev # evs) s = run evs (step ev s)"
  by (simp add: run_def)

lemma run_cache_keeps:
  "promiseCache s k = Some p \<Longrightarrow> promiseCache (run evs s) k = Some p"
  by (induction evs arbitrary: s) (simp_all add: step_cache_keeps)

lemma run_settled:
  "p < next_pid s \<Longrightarrow> promises s p \<noteq> Pending \<Longrightarrow> promises (run evs s) p = promises s p"
proof (induction evs arbitrary: s)
  case Nil
  then show ?case by simp
next
  case (Cons ev evs)
  have same: "promises (step ev s) p = promises s p"
    using Cons.prems by (rule step_settled)
  have "p < next_pid (step ev s)"
    using Cons.prems(1) step_next_pid_le [of s ev] by simp
  then have "promises (run evs (step ev s)) p = promises (step ev s) p"
    using Cons.prems(2) same by (intro Cons.IH) simp_all
  with same show ?case by simp
qed

lemma run_creations_cached:
  "promiseCache s k = Some p \<Longrightarrow> creations k (run evs s) = creations k s"
proof (induction evs arbitrary: s)
  case Nil
  then show ?case by simp
next
  case (Cons ev evs)
  have keep: "promiseCache (step ev s) k = Some p"
    using Cons.prems by (rule step_cache_keeps)
  have "creations k (step ev s) = creations k s"
    using Cons.prems by (cases ev) (simp_all add: useStreamable_creations)
  with Cons.IH [OF keep] show ?case by simp
qed

lemma step_creations_le:
  "creations k (step ev s) \<le> Suc (creations k s)"
  by (cases ev) (simp_all add: useStreamable_creations)

lemma useStreamable_created_cached:
  "isPromise x \<Longrightarrow> \<exists>p. promiseCache (snd (useStreamable x k s)) k = Some p"
  by (cases x; cases "promiseCache s k") (simp_all add: useStreamable_eqs)

lemma step_created_cached:
  "creations k (step ev s) \<noteq> creations k s \<Longrightarrow> promiseCache (step ev s) k \<noteq> None"
  by (cases ev)
     (auto simp add: useStreamable_creations useStreamable_created_cached split: if_splits)

lemma run_creations_le:
  "creations k (run evs s) \<le> Suc (creations k s)"
proof (induction evs arbitrary: s)
  case Nil
  then show ?case by simp
next
  case (Cons ev evs)
  show ?case
  proof (cases "creations k (step ev s) = creations k s")
    case True
    with Cons.IH [of "step ev s"] show ?thesis by simp
  next
    case False
    then obtain p where "promiseCache (step ev s) k = Some p"
      using step_created_cached by fastforce
    then have "creations k (run evs (step ev s)) = creations k (step ev s)"
      by (rule run_creations_cached)
    with step_creations_le [of k ev s] show ?thesis by simp
  qed
qed

text \<open>Allocation over a session that keeps to one key.\<close>

lemma step_next_pid_cached:
  "promiseCache s k = Some p \<Longrightarrow> for_key k ev \<Longrightarrow> next_pid (step ev s) = next_pid s"
  by (cases ev) (simp_all add: useStreamable_hit_frame)

lemma run_next_pid_cached:
  "promiseCache s k = Some p \<Longrightarrow> list_all (for_key k) evs \<Longrightarrow>
     next_pid (run evs s) = next_pid s"
proof (induction evs arbitrary: s)
  case Nil
  then show ?case by simp
next
  case (Cons ev evs)
  have "promiseCache (step ev s) k = Some p"
    using Cons.prems(1) by (rule step_cache_keeps)
  then have "next_pid (run evs (step ev s)) = next_pid (step ev s)"
    using Cons.prems(2) by (intro Cons.IH) simp_all
  moreover have "for_key k ev"
    using Cons.prems(2) by simp
  then have "next_pid (step ev s) = next_pid s"
    by (rule step_next_pid_cached [OF Cons.prems(1)])
  ultimately show ?case by simp
qed

lemma step_allocated_cached:
  "for_key k ev \<Longrightarrow> next_pid (step ev s) \<noteq> next_pid s \<Longrightarrow> promiseCache (step ev s) k \<noteq> None"
proof (cases ev)
  case (Attempt x k')
  assume "for_key k ev" and "next_pid (step ev s) \<noteq> next_pid s"
  with Attempt have "k' = k" and "isPromise x"
    using useStreamable_direct_frame [of x k' s] by (auto elim: isPromise.elims)
  with Attempt show ?thesis
    by (simp add: useStreamable_created_cached)
qed simp_all

lemma run_next_pid_for_key:
  "list_all (for_key k) evs \<Longrightarrow> next_pid (run evs s) \<le> Suc (next_pid s)"
proof (induction evs arbitrary: s)
  case Nil
  then show ?case by simp
next
  case (Cons ev evs)
  then have ev: "for_key k ev" and evs: "list_all (for_key k) evs" by simp_all
  show ?case
  proof (cases "next_pid (step ev s) = next_pid s")
    case True
    with Cons.IH [OF evs, of "step ev s"] show ?thesis by simp
  next
    case False
    then obtain p where "promiseCache (step ev s) k = Some p"
      using step_allocated_cached [OF ev] by fastforce
    then have "next_pid (run evs (step ev s)) = next_pid (step ev s)"
      using evs by (rule run_next_pid_cached)
    moreover have "next_pid (step ev s) \<le> Suc (next_pid s)"
      by (cases ev) (simp_all add: useStreamable_next_pid_le)
    ultimately show ?thesis by simp
  qed
qed

text \<open>What an outcome depends on.\<close>

lemma use_cong: "promises s = promises t \<Longrightarrow> use s a = use t a"
  by (cases a) (simp_all add: use_def)

lemma useStreamable_fst_cong:
  "promiseCache s k = promiseCache t k \<Longrightarrow> promises s = promises t \<Longrightarrow>
   next_pid s = next_pid t \<or> (\<forall>q. y \<noteq> SubPromiseObj q) \<Longrightarrow>
     fst (useStreamable y k s) = fst (useStreamable y k t)"
  using use_cong [of s t]
  by (cases y; cases "promiseCache t k") (auto simp add: useStreamable_eqs)

lemma get_or_create_cached:
  "\<exists>p. fst (get_or_create k x s) = Some p \<and> promiseCache (snd (get_or_create k x s)) k = Some p"
  by (cases x; cases "promiseCache s k")
     (simp_all add: get_or_create_def has_def get_def set_entry_def console_log_def
        Promise_resolve_def)

lemma get_or_create_creations:
  "creations k (snd (get_or_create k x s)) =
     creations k s + (if promiseCache s k = None then 1 else 0)"
  by (cases x; cases "promiseCache s k")
     (simp_all add: get_or_create_def has_def get_def set_entry_def console_log_def
        Promise_resolve_def creations_def)

lemma get_or_create_next_pid:
  "next_pid (snd (get_or_create k x s)) \<le> Suc (next_pid s)"
  by (cases x; cases "promiseCache s k")
     (simp_all add: get_or_create_def has_def get_def set_entry_def console_log_def
        Promise_resolve_def)

lemma render_Stream:
  "render (Stream v fb ch k) s =
     (case useStreamable v k s of
        (Ready r, s') \<Rightarrow> (Shown (Some (ch r)), s')
      | (Suspend p, s') \<Rightarrow> (Shown fb, s')
      | (Failed e, s') \<Rightarrow> (Thrown e, s'))"
  by (simp add: Stream_def UseStreamable_def split: prod.splits outcome.splits)

lemma render_Stream_snd: "snd (render (Stream v fb ch k) s) = snd (useStreamable v k s)"
  by (simp add: render_Stream split: prod.splits outcome.splits)

lemma render_Stream_fst:
  "fst (render (Stream v fb ch k) s) =
     (case fst (useStreamable v k s) of
        Ready r \<Rightarrow> Shown (Some (ch r))
      | Suspend p \<Rightarrow> Shown fb
      | Failed e \<Rightarrow> Thrown e)"
  by (simp add: render_Stream split: prod.splits outcome.splits)

lemma UseStreamable_fst:
  "fst (UseStreamable v ch k s) =
     (case fst (useStreamable v k s) of
        Ready r \<Rightarrow> Shown (Some (ch r))
      | Suspend p \<Rightarrow> Suspended p
      | Failed e \<Rightarrow> Thrown e)"
  by (simp add: UseStreamable_def split: prod.splits outcome.splits)

lemma render_Stream_view_cong:
  "promiseCache s k = promiseCache t k \<Longrightarrow> promises s = promises t \<Longrightarrow>
     fst (render (Stream y fb ch k) s) = fst (render (Stream y fb ch k) t)"
  using use_cong [of s t]
  by (cases y; cases "promiseCache t k") (auto simp add: render_Stream_fst useStreamable_eqs)

text \<open>The definitions a concrete evaluation unfolds.\<close>

lemmas eval_defs =
  initial_def useStreamable_def get_or_create_def has_def get_def set_entry_def
  console_log_def Promise_resolve_def use_def settle_def Let_def

section \<open>Synchronous values\<close>

text \<open>
  C3: a value that is not a promise comes back as it is, at once: the outcome is
  \<open>Ready v\<close>, never a suspension; the only effect is the log line, so the cache, the
  promise store and its next address are what they were; and the outcome is the same
  whatever the cache holds, so the cache is not consulted.
\<close>

theorem sync_value_returned_without_cache:
  "\<not> isPromise v \<Longrightarrow>
     useStreamable v k s = (Ready v, s\<lparr>console := console s @ [(''useStreamable'', k)]\<rparr>)
     \<and> promiseCache (snd (useStreamable v k s)) = promiseCache s
     \<and> promises (snd (useStreamable v k s)) = promises s
     \<and> next_pid (snd (useStreamable v k s)) = next_pid s
     \<and> (\<forall>c. fst (useStreamable v k (s\<lparr>promiseCache := c\<rparr>)) = Ready v)"
  by (simp add: useStreamable_sync)

theorem sync_value_returned_without_cache_witness:
  "\<not> isPromise (Data (3::nat))
   \<and> fst (useStreamable (Data (3::nat)) ''products'' (initial (\<lambda>p. Pending) 0)) = Ready (Data 3)
   \<and> promiseCache (snd (useStreamable (Data (3::nat)) ''products'' (initial (\<lambda>p. Pending) 0)))
       = Map.empty"
  using sync_value_returned_without_cache
          [of "Data (3::nat)" "''products''" "initial (\<lambda>p. Pending) 0"]
  by (simp add: initial_def)

text \<open>
  C10: the discriminant is the \<^verbatim>\<open>instanceof Promise\<close> test and nothing structural: a
  value is classified as a promise exactly when it is a promise object, built by the
  \<^verbatim>\<open>Promise\<close> constructor or by a subclass of it. So a thenable that no such
  constructor built, like every other value that is not an instance of
  \<^verbatim>\<open>Promise\<close>, is classified as synchronous: it is returned itself, not awaited
  (the outcome is the thenable, the promise store and its next address are unchanged),
  and the cache is left as it was.
\<close>

theorem thenable_is_treated_as_synchronous:
  "isPromise v = (\<exists>p. v = PromiseObj p \<or> v = SubPromiseObj p)
   \<and> \<not> isPromise (Thenable t)
   \<and> useStreamable (Thenable t) k s =
       (Ready (Thenable t), s\<lparr>console := console s @ [(''useStreamable'', k)]\<rparr>)
   \<and> ((\<forall>p. v \<noteq> PromiseObj p \<and> v \<noteq> SubPromiseObj p) \<longrightarrow>
        fst (useStreamable v k s) = Ready v
        \<and> promiseCache (snd (useStreamable v k s)) = promiseCache s
        \<and> promises (snd (useStreamable v k s)) = promises s
        \<and> next_pid (snd (useStreamable v k s)) = next_pid s)"
proof -
  have iff: "isPromise v = (\<exists>p. v = PromiseObj p \<or> v = SubPromiseObj p)"
    by (cases v) simp_all
  then have "\<forall>p. v \<noteq> PromiseObj p \<and> v \<noteq> SubPromiseObj p \<Longrightarrow> \<not> isPromise v"
    by simp
  then show ?thesis
    using iff by (simp add: useStreamable_sync)
qed

text \<open>
  C10, at a concrete input: a thenable handed over under a key that already caches a
  promise comes back itself and the cached entry stays.
\<close>

theorem thenable_is_treated_as_synchronous_witness:
  "(\<forall>p. Thenable (8::nat) \<noteq> PromiseObj p \<and> Thenable (8::nat) \<noteq> SubPromiseObj p)
   \<and> fst (useStreamable (Thenable (8::nat)) ''products''
        (run [Attempt (PromiseObj 0) ''products''] (initial (\<lambda>p. Pending) 1)))
       = Ready (Thenable 8)
   \<and> promiseCache (snd (useStreamable (Thenable (8::nat)) ''products''
        (run [Attempt (PromiseObj 0) ''products''] (initial (\<lambda>p. Pending) 1)))) ''products''
       = Some 0"
  using thenable_is_treated_as_synchronous
    [of "Thenable (8::nat)" 8 "''products''"
        "run [Attempt (PromiseObj 0) ''products''] (initial (\<lambda>p. Pending) 1)"]
  by (simp add: eval_defs)

section \<open>The cache: first entry wins\<close>

text \<open>
  C1 as stated fails: the key \<open>products\<close> caches promise 0, fulfilled with 1; a
  later call with the synchronous value 2 and the same key returns 2, not the cached
  computation's result. The guard \<^verbatim>\<open>if(!isPromise(streamable)) return streamable\<close>
  comes before any look at the cache.
\<close>

theorem later_sync_value_not_ignored:
  "let s = run [Attempt (PromiseObj 0) ''products'', Fulfil 0 (Data 1)]
             (initial (\<lambda>p. Pending) 1)
   in promiseCache s ''products'' = Some 0
      \<and> use s (Some 0) = Ready (Data (1::nat))
      \<and> fst (useStreamable (Data 2) ''products'' s) = Ready (Data 2)"
  by (simp add: eval_defs)

text \<open>
  C1, amended: for every key under which a computation is cached, a later call with a
  promise (the same one or any other, also an instance of a subclass) and the same key
  returns the outcome of the cached computation and leaves the cache as it is: the later
  promise is ignored, now and after any further events of the session. A later
  synchronous value is not ignored: it is returned itself.
\<close>

theorem cached_computation_wins_over_later_promise:
  "promiseCache s k = Some p \<Longrightarrow>
     useStreamable (PromiseObj q) k s =
       (use s (Some p), s\<lparr>console := console s @ [(''useStreamable'', k)]\<rparr>)
     \<and> promiseCache (snd (useStreamable (PromiseObj q) k s)) = promiseCache s
     \<and> fst (useStreamable (PromiseObj q') k (run evs s)) = use (run evs s) (Some p)
     \<and> (\<not> isPromise v \<longrightarrow> fst (useStreamable v k s) = Ready v)
     \<and> (isPromise x \<longrightarrow>
          useStreamable x k s =
            (use s (Some p), s\<lparr>console := console s @ [(''useStreamable'', k)]\<rparr>)
          \<and> fst (useStreamable x k (run evs s)) = use (run evs s) (Some p))"
  by (simp add: useStreamable_hit run_cache_keeps useStreamable_sync)

text \<open>
  C1 amended, at a concrete input: promise 0 is cached under \<open>products\<close> and
  fulfils with 1; a later call with promise 1 under the same key returns 1.
\<close>

theorem cached_computation_wins_over_later_promise_witness:
  "promiseCache (run [Attempt (PromiseObj 0) ''products'', Fulfil 0 (Data (1::nat))]
       (initial (\<lambda>p. Pending) 2)) ''products'' = Some 0
   \<and> \<not> isPromise (Data (2::nat))
   \<and> isPromise (SubPromiseObj 1 :: nat jsval)
   \<and> fst (useStreamable (PromiseObj 1) ''products''
        (run [Attempt (PromiseObj 0) ''products'', Fulfil 0 (Data (1::nat))]
           (initial (\<lambda>p. Pending) 2))) = Ready (Data 1)
   \<and> fst (useStreamable (SubPromiseObj 1) ''products''
        (run [Attempt (PromiseObj 0) ''products'', Fulfil 0 (Data (1::nat))]
           (initial (\<lambda>p. Pending) 2))) = Ready (Data 1)"
  using cached_computation_wins_over_later_promise
    [where s = "run [Attempt (PromiseObj 0) ''products'', Fulfil 0 (Data (1::nat))]
           (initial (\<lambda>p. Pending) 2)"
       and k = "''products''" and p = 0 and q = 1 and q' = 1 and evs = "[]"
       and v = "Data 2" and x = "SubPromiseObj 1"]
  by (simp add: eval_defs)

text \<open>
  C2: the cache step is idempotent. Two calls with the same key return the same stored
  computation, whatever the two inputs are, and the second call changes nothing; the
  creating branch (the one the source logs as "first time using streamable") runs at most
  once in the two calls, and at most one promise object is allocated. Over a whole
  session, any number of resolution attempts and settlements in any order, the creating
  branch runs at most once for a key; over a session whose attempts all use the key, at
  most one promise object is allocated. Once the computation cached under the key, a
  promise of the store, has settled, no later resolution for that key suspends, whatever
  value is handed over.
\<close>

theorem get_or_create_idempotent_single_creation:
  "fst (get_or_create k y (snd (get_or_create k x s))) = fst (get_or_create k x s)
   \<and> snd (get_or_create k y (snd (get_or_create k x s))) = snd (get_or_create k x s)
   \<and> creations k (snd (get_or_create k y (snd (get_or_create k x s)))) \<le> Suc (creations k s)
   \<and> next_pid (snd (get_or_create k y (snd (get_or_create k x s)))) \<le> Suc (next_pid s)
   \<and> creations k (run evs s) \<le> Suc (creations k s)
   \<and> (list_all (for_key k) evs \<longrightarrow> next_pid (run evs s) \<le> Suc (next_pid s))
   \<and> (promiseCache s k = Some p \<and> p < next_pid s \<and> promises s p \<noteq> Pending \<longrightarrow>
        (\<forall>q. fst (useStreamable v k (run evs s)) \<noteq> Suspend q))"
proof -
  obtain c where c: "fst (get_or_create k x s) = Some c"
    "promiseCache (snd (get_or_create k x s)) k = Some c"
    using get_or_create_cached by blast
  have again: "get_or_create k y (snd (get_or_create k x s)) = (Some c, snd (get_or_create k x s))"
    using c(2) by (rule get_or_create_hit)
  have settled: "\<forall>q. fst (useStreamable v k (run evs s)) \<noteq> Suspend q"
    if "promiseCache s k = Some p" "p < next_pid s" "promises s p \<noteq> Pending"
  proof (cases "isPromise v")
    case False
    then show ?thesis by (simp add: useStreamable_sync)
  next
    case True
    have "promiseCache (run evs s) k = Some p"
      using that(1) by (rule run_cache_keeps)
    moreover have "promises (run evs s) p \<noteq> Pending"
      using that(2,3) by (simp add: run_settled)
    ultimately show ?thesis
      using True by (simp add: useStreamable_hit use_def split: pstate.splits)
  qed
  show ?thesis
    using c again settled get_or_create_creations [of k x s] get_or_create_next_pid [of k x s]
      run_creations_le [of k evs s] run_next_pid_for_key [of k evs s]
    by simp
qed

text \<open>
  C2, at a concrete input: promise 0 is cached under \<open>products\<close> and fulfilled;
  two more cache steps with promises 1 and 2 return promise 0, the creating branch has
  run once, an attempt with an instance of a subclass allocates nothing, and a later
  attempt does not suspend.
\<close>

theorem get_or_create_idempotent_single_creation_witness:
  "promiseCache (run [Attempt (PromiseObj 0) ''products'', Fulfil 0 (Data (1::nat))]
       (initial (\<lambda>p. Pending) 3)) ''products'' = Some 0
   \<and> 0 < next_pid (run [Attempt (PromiseObj 0) ''products'', Fulfil 0 (Data (1::nat))]
       (initial (\<lambda>p. Pending) 3))
   \<and> promises (run [Attempt (PromiseObj 0) ''products'', Fulfil 0 (Data (1::nat))]
       (initial (\<lambda>p. Pending) 3)) 0 \<noteq> Pending
   \<and> list_all (for_key ''products'') [Attempt (SubPromiseObj 1 :: nat jsval) ''products'']
   \<and> fst (get_or_create ''products'' (PromiseObj 2)
        (snd (get_or_create ''products'' (PromiseObj 1)
           (run [Attempt (PromiseObj 0) ''products'', Fulfil 0 (Data (1::nat))]
              (initial (\<lambda>p. Pending) 3))))) = Some 0
   \<and> creations ''products''
        (run [Attempt (SubPromiseObj 1) ''products'']
           (run [Attempt (PromiseObj 0) ''products'', Fulfil 0 (Data (1::nat))]
              (initial (\<lambda>p. Pending) 3))) = 1
   \<and> next_pid
        (run [Attempt (SubPromiseObj 1) ''products'']
           (run [Attempt (PromiseObj 0) ''products'', Fulfil 0 (Data (1::nat))]
              (initial (\<lambda>p. Pending) 3))) = 3
   \<and> fst (useStreamable (PromiseObj 1) ''products''
        (run [Attempt (SubPromiseObj 1) ''products'']
           (run [Attempt (PromiseObj 0) ''products'', Fulfil 0 (Data (1::nat))]
              (initial (\<lambda>p. Pending) 3)))) \<noteq> Suspend 0"
  using get_or_create_idempotent_single_creation
    [where k = "''products''" and y = "PromiseObj 2" and x = "PromiseObj 1"
       and s = "run [Attempt (PromiseObj 0) ''products'', Fulfil 0 (Data (1::nat))]
           (initial (\<lambda>p. Pending) 3)"
       and evs = "[Attempt (SubPromiseObj 1) ''products'']" and p = 0 and v = "PromiseObj 1"]
  by (simp add: eval_defs creations_def)

text \<open>
  C5 as stated fails for a genuine promise that is an instance of a subclass of
  \<^verbatim>\<open>Promise\<close>: it passes \<^verbatim>\<open>instanceof Promise\<close>, but
  \<^verbatim>\<open>Promise.resolve\<close> returns its argument only when the argument's constructor is
  \<^verbatim>\<open>Promise\<close> itself. Handed promise 0 of a subclass under the fresh key
  \<open>products\<close>, the resolver allocates a new promise at address 1 and the cache stores
  that one, not the caller's.
\<close>

theorem subclass_promise_is_wrapped_anew:
  "let s = initial (\<lambda>p. Pending :: nat pstate) 1;
       s' = snd (useStreamable (SubPromiseObj 0) ''products'' s)
   in isPromise (SubPromiseObj 0 :: nat jsval)
      \<and> promiseCache s ''products'' = None
      \<and> promiseCache s' ''products'' = Some 1
      \<and> next_pid s = 1 \<and> next_pid s' = 2"
  by (simp add: eval_defs)

text \<open>
  C5, amended: a promise built by the \<^verbatim>\<open>Promise\<close> constructor itself, handed over
  under a key the cache does not hold, is stored as it is: the entry under the key is the
  caller's own promise, no promise object is allocated, no promise changes state, and the
  outcome is read from the caller's promise.
\<close>

theorem native_promise_is_cached_as_it_is:
  "promiseCache s k = None \<Longrightarrow>
     promiseCache (snd (useStreamable (PromiseObj p) k s)) k = Some p
     \<and> promises (snd (useStreamable (PromiseObj p) k s)) = promises s
     \<and> next_pid (snd (useStreamable (PromiseObj p) k s)) = next_pid s
     \<and> creations k (snd (useStreamable (PromiseObj p) k s)) = Suc (creations k s)
     \<and> fst (useStreamable (PromiseObj p) k s) = use s (Some p)"
  by (simp add: useStreamable_miss creations_def)

text \<open>
  C5 amended, at a concrete input: promise 0 under the fresh key \<open>products\<close>.
\<close>

theorem native_promise_is_cached_as_it_is_witness:
  "promiseCache (initial (\<lambda>p. Pending :: nat pstate) 1) ''products'' = None
   \<and> promiseCache (snd (useStreamable (PromiseObj 0) ''products''
        (initial (\<lambda>p. Pending :: nat pstate) 1))) ''products'' = Some 0
   \<and> next_pid (snd (useStreamable (PromiseObj 0) ''products''
        (initial (\<lambda>p. Pending :: nat pstate) 1))) = 1"
  using native_promise_is_cached_as_it_is
    [of "initial (\<lambda>p. Pending :: nat pstate) 1" "''products''" 0]
  by (simp add: initial_def)

text \<open>
  C7 as stated fails: the module has no operation that removes an entry. After promise 0
  is cached under \<open>products\<close>, no session of resolution attempts and settlements
  makes the key absent again, and a later cache step with another promise returns
  promise 0 without running the creating branch a second time.
\<close>

theorem no_event_removes_a_cache_entry:
  "let s = snd (useStreamable (PromiseObj 0) ''products'' (initial (\<lambda>p. Pending :: nat pstate) 2))
   in \<not> (\<exists>evs. promiseCache (run evs s) ''products'' = None)
      \<and> get_or_create ''products'' (PromiseObj 1) s = (Some 0, s)
      \<and> creations ''products'' (snd (get_or_create ''products'' (PromiseObj 1) s)) = 1"
proof -
  let ?s = "snd (useStreamable (PromiseObj 0) ''products'' (initial (\<lambda>p. Pending :: nat pstate) 2))"
  have c: "promiseCache ?s ''products'' = Some 0"
    by (simp add: eval_defs)
  have "promiseCache (run evs ?s) ''products'' = Some 0" for evs
    using c by (rule run_cache_keeps)
  then have "\<not> (\<exists>evs. promiseCache (run evs ?s) ''products'' = None)"
    by simp
  moreover have "get_or_create ''products'' (PromiseObj 1) ?s = (Some 0, ?s)"
    using c by (rule get_or_create_hit)
  moreover have "creations ''products'' ?s = 1"
    by (simp add: eval_defs creations_def)
  ultimately show ?thesis
    by (simp add: Let_def)
qed

text \<open>
  C7, amended: the cache has no invalidate operation. An entry, once stored, stays for
  the rest of the session: after any events the key still maps to the same computation, a
  cache step returns it and the creating branch does not run again. Only for a key that
  is absent does the cache step run the creating branch (once) and store the computation
  it made, which for a promise built by the \<^verbatim>\<open>Promise\<close> constructor itself is
  that promise.
\<close>

theorem cache_entry_stays_until_key_is_absent:
  "(promiseCache s k = Some p \<longrightarrow>
      promiseCache (run evs s) k = Some p
      \<and> get_or_create k x (run evs s) = (Some p, run evs s)
      \<and> creations k (run evs s) = creations k s)
   \<and> (promiseCache s k = None \<longrightarrow>
      creations k (snd (get_or_create k x s)) = Suc (creations k s)
      \<and> fst (get_or_create k x s) \<noteq> None
      \<and> promiseCache (snd (get_or_create k x s)) k = fst (get_or_create k x s)
      \<and> fst (get_or_create k (PromiseObj q) s) = Some q)"
proof -
  obtain c where "fst (get_or_create k x s) = Some c"
    "promiseCache (snd (get_or_create k x s)) k = Some c"
    using get_or_create_cached by blast
  then show ?thesis
    by (simp add: run_cache_keeps get_or_create_hit run_creations_cached
        get_or_create_creations get_or_create_miss)
qed

text \<open>
  C7 amended, at a concrete input: \<open>products\<close> is absent at first, the cache step
  stores promise 0, and the entry survives a later attempt with promise 1 and a
  settlement.
\<close>

theorem cache_entry_stays_until_key_is_absent_witness:
  "promiseCache (initial (\<lambda>p. Pending :: nat pstate) 2) ''products'' = None
   \<and> fst (get_or_create ''products'' (PromiseObj 0) (initial (\<lambda>p. Pending :: nat pstate) 2)) = Some 0
   \<and> promiseCache (snd (get_or_create ''products'' (PromiseObj 0)
         (initial (\<lambda>p. Pending :: nat pstate) 2))) ''products'' = Some 0
   \<and> promiseCache
        (run [Attempt (PromiseObj 1) ''products'', Fulfil 0 (Data 4)]
           (snd (get_or_create ''products'' (PromiseObj 0)
              (initial (\<lambda>p. Pending :: nat pstate) 2)))) ''products'' = Some 0"
  using cache_entry_stays_until_key_is_absent
     [of "initial (\<lambda>p. Pending :: nat pstate) 2" "''products''" 0 "[]" "PromiseObj 0" 0]
    cache_entry_stays_until_key_is_absent
     [of "snd (get_or_create ''products'' (PromiseObj 0) (initial (\<lambda>p. Pending :: nat pstate) 2))"
         "''products''" 0 "[Attempt (PromiseObj 1) ''products'', Fulfil 0 (Data 4)]"
         "PromiseObj 0" 0]
  by (simp add: initial_def)

text \<open>
  C9: cache operations are scoped to their key. A resolution attempt or a boundary render
  under one key leaves the entry of every other key as it was. When the first attempt
  allocates nothing (its value is not an instance of a subclass), the outcome of a
  resolution under the other key and the view of a boundary under the other key are the
  same whether or not the first attempt happened before. When it does allocate, in a
  store whose next unused address holds no settled promise, the view of the other
  boundary is still the same, and so is the outcome of the other resolution, unless that
  one allocates a promise of its own, whose address then differs.
\<close>

theorem distinct_keys_do_not_interfere:
  "k1 \<noteq> k2 \<Longrightarrow>
     promiseCache (snd (useStreamable x k1 s)) k2 = promiseCache s k2
     \<and> promiseCache (snd (render (Stream x fb1 ch1 k1) s)) k2 = promiseCache s k2
     \<and> ((\<forall>q. x \<noteq> SubPromiseObj q) \<longrightarrow>
          fst (useStreamable y k2 (snd (useStreamable x k1 s))) = fst (useStreamable y k2 s)
          \<and> fst (render (Stream y fb2 ch2 k2) (snd (render (Stream x fb1 ch1 k1) s)))
              = fst (render (Stream y fb2 ch2 k2) s))
     \<and> (promises s (next_pid s) = Pending \<longrightarrow>
          fst (render (Stream y fb2 ch2 k2) (snd (render (Stream x fb1 ch1 k1) s)))
              = fst (render (Stream y fb2 ch2 k2) s)
          \<and> ((\<forall>q. y \<noteq> SubPromiseObj q) \<longrightarrow>
               fst (useStreamable y k2 (snd (useStreamable x k1 s)))
                 = fst (useStreamable y k2 s)))"
proof -
  assume ne: "k1 \<noteq> k2"
  let ?s1 = "snd (useStreamable x k1 s)"
  have c: "promiseCache ?s1 k2 = promiseCache s k2"
    using ne by (rule useStreamable_cache_other)
  have direct: "fst (useStreamable y k2 ?s1) = fst (useStreamable y k2 s)"
    "fst (render (Stream y fb2 ch2 k2) ?s1) = fst (render (Stream y fb2 ch2 k2) s)"
    if "\<forall>q. x \<noteq> SubPromiseObj q"
  proof -
    have f: "promises ?s1 = promises s" "next_pid ?s1 = next_pid s"
      using useStreamable_direct_frame [OF that, of k1 s] by simp_all
    show "fst (useStreamable y k2 ?s1) = fst (useStreamable y k2 s)"
      using c f by (intro useStreamable_fst_cong) simp_all
    show "fst (render (Stream y fb2 ch2 k2) ?s1) = fst (render (Stream y fb2 ch2 k2) s)"
      using c f(1) by (rule render_Stream_view_cong)
  qed
  have idle: "fst (render (Stream y fb2 ch2 k2) ?s1) = fst (render (Stream y fb2 ch2 k2) s)"
    "\<forall>q. y \<noteq> SubPromiseObj q \<Longrightarrow> fst (useStreamable y k2 ?s1) = fst (useStreamable y k2 s)"
    if "promises s (next_pid s) = Pending"
  proof -
    have f: "promises ?s1 = promises s"
      using that by (rule useStreamable_promises_idle)
    show "fst (render (Stream y fb2 ch2 k2) ?s1) = fst (render (Stream y fb2 ch2 k2) s)"
      using c f by (rule render_Stream_view_cong)
    show "fst (useStreamable y k2 ?s1) = fst (useStreamable y k2 s)"
      if "\<forall>q. y \<noteq> SubPromiseObj q"
      using c f that by (intro useStreamable_fst_cong) simp_all
  qed
  show ?thesis
    using c direct idle by (simp add: render_Stream_snd)
qed

text \<open>
  C9, at the spec's scenario: the boundary for \<open>products\<close> is pending and shows
  its fallback; the boundary for \<open>reviews\<close> has its value and shows its content.
\<close>

theorem distinct_keys_do_not_interfere_witness:
  "''products'' \<noteq> ''reviews''
   \<and> (\<forall>q. (PromiseObj 0 :: nat jsval) \<noteq> SubPromiseObj q)
   \<and> (\<forall>q. (Data 3 :: nat jsval) \<noteq> SubPromiseObj q)
   \<and> promises (initial (\<lambda>p. Pending :: nat pstate) 1)
        (next_pid (initial (\<lambda>p. Pending :: nat pstate) 1)) = Pending
   \<and> fst (render (Stream (PromiseObj 0) (Some ''skeleton'') (\<lambda>v. ''list'') ''products'')
        (initial (\<lambda>p. Pending :: nat pstate) 1)) = Shown (Some ''skeleton'')
   \<and> fst (render (Stream (Data 3) (Some ''skeleton'') (\<lambda>v. ''stars'') ''reviews'')
        (snd (render (Stream (PromiseObj 0) (Some ''skeleton'') (\<lambda>v. ''list'') ''products'')
           (initial (\<lambda>p. Pending :: nat pstate) 1)))) = Shown (Some ''stars'')"
  using distinct_keys_do_not_interfere
    [where ?k1.0 = "''products''" and ?k2.0 = "''reviews''" and x = "PromiseObj 0"
       and s = "initial (\<lambda>p. Pending :: nat pstate) 1" and y = "Data 3"
       and ?fb1.0 = "Some ''skeleton''" and ?ch1.0 = "\<lambda>v. ''list''"
       and ?fb2.0 = "Some ''skeleton''" and ?ch2.0 = "\<lambda>v. ''stars''"]
  by (simp add: render_Stream_fst eval_defs)

section \<open>Suspension, fulfilment and rejection\<close>

text \<open>
  C4 as stated fails for a key that already caches another computation: \<open>products\<close>
  caches promise 0, fulfilled with 7. Promise 1 is pending, yet resolving it under
  \<open>products\<close> returns 7 instead of suspending, and after promise 1 fulfils with 9
  the resolution under that key still returns 7.
\<close>

theorem stale_entry_answers_for_pending_promise:
  "let s = run [Attempt (PromiseObj 0) ''products'', Fulfil 0 (Data 7)]
             (initial (\<lambda>p. Pending) 2)
   in promises s 1 = Pending
      \<and> fst (useStreamable (PromiseObj 1) ''products'' s) = Ready (Data (7::nat))
      \<and> fst (useStreamable (PromiseObj 1) ''products''
           (settle 1 (Fulfilled (Data 9)) (snd (useStreamable (PromiseObj 1) ''products'' s))))
          = Ready (Data 7)"
  by (simp add: eval_defs)

text \<open>
  C4, amended: for every pending promise p built by the \<^verbatim>\<open>Promise\<close> constructor
  and every key that the cache does not hold yet, or holds for p itself, resolving p
  under the key suspends on p; once p has fulfilled with v, resolving p under the same
  key returns v, and for a promise of the store (an address below the next unused one)
  also after any further events of the session. For an instance of a subclass under a
  key the cache does not hold, the resolution suspends on the new promise that
  \<^verbatim>\<open>Promise.resolve\<close> makes for it, and returns v once that promise has fulfilled
  with v.
\<close>

theorem pending_promise_suspends_then_returns_value:
  "promiseCache s k = None \<or> promiseCache s k = Some p \<Longrightarrow> promises s p = Pending \<Longrightarrow>
     fst (useStreamable (PromiseObj p) k s) = Suspend p
     \<and> fst (useStreamable (PromiseObj p) k
          (settle p (Fulfilled v) (snd (useStreamable (PromiseObj p) k s)))) = Ready v
     \<and> (p < next_pid s \<longrightarrow>
          fst (useStreamable (PromiseObj p) k
            (run evs (settle p (Fulfilled v) (snd (useStreamable (PromiseObj p) k s)))))
          = Ready v)
     \<and> (promiseCache s k = None \<longrightarrow>
          fst (useStreamable (SubPromiseObj p) k s) = Suspend (next_pid s)
          \<and> fst (useStreamable (SubPromiseObj p) k
               (settle (next_pid s) (Fulfilled v) (snd (useStreamable (SubPromiseObj p) k s))))
              = Ready v)"
proof -
  assume c: "promiseCache s k = None \<or> promiseCache s k = Some p"
    and pend: "promises s p = Pending"
  have sub: "fst (useStreamable (SubPromiseObj p) k s) = Suspend (next_pid s)"
    "fst (useStreamable (SubPromiseObj p) k
       (settle (next_pid s) (Fulfilled v) (snd (useStreamable (SubPromiseObj p) k s))))
      = Ready v"
    if "promiseCache s k = None"
    using that by (simp_all add: useStreamable_miss_sub useStreamable_hit settle_def use_def)
  let ?s1 = "snd (useStreamable (PromiseObj p) k s)"
  let ?s2 = "settle p (Fulfilled v) ?s1"
  from c have first: "fst (useStreamable (PromiseObj p) k s) = use s (Some p)"
    by (auto simp add: useStreamable_hit useStreamable_miss)
  from c have "promiseCache ?s1 k = Some p"
    by (auto simp add: useStreamable_hit useStreamable_miss)
  then have c2: "promiseCache ?s2 k = Some p" by simp
  have frame: "promises ?s1 = promises s" "next_pid ?s1 = next_pid s"
    using useStreamable_direct_frame [of "PromiseObj p" k s] by simp_all
  have f2: "promises ?s2 p = Fulfilled v"
    using pend frame by (simp add: settle_def)
  have now: "fst (useStreamable (PromiseObj p) k ?s2) = Ready v"
    using c2 f2 by (simp add: useStreamable_hit use_def)
  have later: "fst (useStreamable (PromiseObj p) k (run evs ?s2)) = Ready v"
    if "p < next_pid s"
  proof -
    have "p < next_pid ?s2" using that frame by simp
    then have "promises (run evs ?s2) p = promises ?s2 p"
      using f2 by (intro run_settled) simp_all
    moreover have "promiseCache (run evs ?s2) k = Some p"
      using c2 by (rule run_cache_keeps)
    ultimately show ?thesis
      using f2 by (simp add: useStreamable_hit use_def)
  qed
  from first pend now later sub show ?thesis by (simp add: use_def)
qed

text \<open>
  C4 amended, at a concrete input: promise 0 under the fresh key \<open>products\<close>
  suspends, and returns 5 after it has fulfilled with 5, also after a later attempt with
  an instance of a subclass under another key.
\<close>

theorem pending_promise_suspends_then_returns_value_witness:
  "(promiseCache (initial (\<lambda>p. Pending) 1) ''products'' = None
      \<or> promiseCache (initial (\<lambda>p. Pending) 1) ''products'' = Some 0)
   \<and> promises (initial (\<lambda>p. Pending :: nat pstate) 1) 0 = Pending
   \<and> 0 < next_pid (initial (\<lambda>p. Pending :: nat pstate) 1)
   \<and> fst (useStreamable (PromiseObj 0) ''products'' (initial (\<lambda>p. Pending :: nat pstate) 1))
       = Suspend 0
   \<and> fst (useStreamable (SubPromiseObj 0) ''products''
        (initial (\<lambda>p. Pending :: nat pstate) 1)) = Suspend 1
   \<and> fst (useStreamable (PromiseObj 0) ''products''
        (run [Attempt (SubPromiseObj 0) ''reviews'']
           (settle 0 (Fulfilled (Data (5::nat)))
              (snd (useStreamable (PromiseObj 0) ''products'' (initial (\<lambda>p. Pending) 1))))))
       = Ready (Data 5)"
  using pending_promise_suspends_then_returns_value
    [where s = "initial (\<lambda>p. Pending) 1" and k = "''products''" and p = 0
       and evs = "[Attempt (SubPromiseObj 0) ''reviews'']" and v = "Data (5::nat)"]
  by (simp add: initial_def)

text \<open>
  C6 as stated fails for a synchronous value: \<open>products\<close> caches promise 0, which has
  rejected with the error "boom"; a resolution for \<open>products\<close> that hands over the
  synchronous value 5 does not fail, it returns 5, and the boundary shows the content.
  The guard \<^verbatim>\<open>if(!isPromise(streamable)) return streamable\<close> comes before any look
  at the cache.
\<close>

theorem sync_value_bypasses_cached_rejection:
  "let s = run [Attempt (PromiseObj 0) ''products'', Reject 0 (ErrorObj ''boom'')]
             (initial (\<lambda>p. Pending :: nat pstate) 1)
   in promiseCache s ''products'' = Some 0
      \<and> promises s 0 = Rejected (ErrorObj ''boom'')
      \<and> fst (useStreamable (Data 5) ''products'' s) = Ready (Data 5)
      \<and> fst (render (Stream (Data 5) (Some ''skeleton'') (\<lambda>v. ''list'') ''products'') s)
          = Shown (Some ''list'')"
  by (simp add: render_Stream_fst eval_defs)

text \<open>
  C6, amended: when the promise cached under a key has rejected with an error, resolving
  a promise under that key fails with exactly that error, and the boundary wrapper lets
  it through as a thrown error. The failed attempt changes no promise, allocates none and
  does not run the creating branch: there is no retry. After the failure and any further
  events the creating branch has still not run for the key, and, the cached promise being
  a promise of the store, a later resolution of a promise under the key fails with the
  same error. A synchronous value handed over under the key is returned itself.
\<close>

theorem rejection_propagates_unmodified:
  "promiseCache s k = Some p \<Longrightarrow> promises s p = Rejected e \<Longrightarrow>
     (isPromise x \<longrightarrow>
        fst (useStreamable x k s) = Failed e
        \<and> fst (render (Stream x fb ch k) s) = Thrown e
        \<and> promises (snd (useStreamable x k s)) = promises s
        \<and> next_pid (snd (useStreamable x k s)) = next_pid s
        \<and> creations k (snd (useStreamable x k s)) = creations k s)
     \<and> creations k (run evs (snd (useStreamable x k s))) = creations k s
     \<and> (isPromise y \<and> p < next_pid s \<longrightarrow>
          fst (useStreamable y k (run evs (snd (useStreamable x k s)))) = Failed e)
     \<and> (\<not> isPromise v \<longrightarrow> fst (useStreamable v k s) = Ready v)"
proof -
  assume c: "promiseCache s k = Some p" and rej: "promises s p = Rejected e"
  let ?s1 = "snd (useStreamable x k s)"
  have first: "fst (useStreamable x k s) = Failed e" if "isPromise x"
    using that c rej by (simp add: useStreamable_hit use_def)
  have frame: "promises ?s1 = promises s" "next_pid ?s1 = next_pid s"
    using useStreamable_hit_frame [OF c, of x] by simp_all
  have c1: "promiseCache ?s1 k = Some p"
    using c by (rule useStreamable_cache_keeps)
  then have cache: "promiseCache (run evs ?s1) k = Some p" by (rule run_cache_keeps)
  have cr1: "creations k ?s1 = creations k s"
    using c by (simp add: useStreamable_creations)
  have "creations k (run evs ?s1) = creations k ?s1"
    using c1 by (rule run_creations_cached)
  with cr1 have cr: "creations k (run evs ?s1) = creations k s" by simp
  have later: "fst (useStreamable y k (run evs ?s1)) = Failed e"
    if "isPromise y" "p < next_pid s"
  proof -
    have "p < next_pid ?s1" using that(2) frame by simp
    then have "promises (run evs ?s1) p = promises ?s1 p"
      using rej frame by (intro run_settled) simp_all
    with rej frame have "promises (run evs ?s1) p = Rejected e" by simp
    with cache that(1) show ?thesis
      by (simp add: useStreamable_hit use_def)
  qed
  show ?thesis
    using first frame cr1 cr later by (simp add: render_Stream_fst useStreamable_sync)
qed

text \<open>
  C6 amended, at a concrete input: promise 0 is cached under \<open>products\<close> and rejects
  with the error "boom"; resolving promise 0, or another promise after a further attempt,
  under \<open>products\<close> fails with "boom".
\<close>

theorem rejection_propagates_unmodified_witness:
  "promiseCache (run [Attempt (PromiseObj 0) ''products'', Reject 0 (ErrorObj ''boom'')]
       (initial (\<lambda>p. Pending :: nat pstate) 2)) ''products'' = Some 0
   \<and> promises (run [Attempt (PromiseObj 0) ''products'', Reject 0 (ErrorObj ''boom'')]
       (initial (\<lambda>p. Pending :: nat pstate) 2)) 0 = Rejected (ErrorObj ''boom'')
   \<and> isPromise (PromiseObj 0 :: nat jsval) \<and> isPromise (SubPromiseObj 1 :: nat jsval)
   \<and> \<not> isPromise (Data 5 :: nat jsval)
   \<and> 0 < next_pid (run [Attempt (PromiseObj 0) ''products'', Reject 0 (ErrorObj ''boom'')]
       (initial (\<lambda>p. Pending :: nat pstate) 2))
   \<and> fst (useStreamable (PromiseObj 0) ''products''
        (run [Attempt (PromiseObj 0) ''products'', Reject 0 (ErrorObj ''boom'')]
           (initial (\<lambda>p. Pending :: nat pstate) 2))) = Failed (ErrorObj ''boom'')
   \<and> fst (useStreamable (SubPromiseObj 1) ''products''
        (run [Attempt (SubPromiseObj 1) ''reviews'']
           (snd (useStreamable (PromiseObj 0) ''products''
              (run [Attempt (PromiseObj 0) ''products'', Reject 0 (ErrorObj ''boom'')]
                 (initial (\<lambda>p. Pending :: nat pstate) 2)))))) = Failed (ErrorObj ''boom'')"
  using rejection_propagates_unmodified
    [where s = "run [Attempt (PromiseObj 0) ''products'', Reject 0 (ErrorObj ''boom'')]
           (initial (\<lambda>p. Pending :: nat pstate) 2)"
       and k = "''products''" and p = 0 and e = "ErrorObj ''boom''" and x = "PromiseObj 0"
       and y = "SubPromiseObj 1" and v = "Data 5" and evs = "[Attempt (SubPromiseObj 1) ''reviews'']"]
  by (simp add: eval_defs)

section \<open>The boundary wrapper composes resolver and boundary\<close>

text \<open>
  C8 as stated fails for a key that already caches another computation: \<open>products\<close>
  caches promise 0, fulfilled with 7. The value handed to the boundary, promise 1, is
  unresolved, yet the composed view is not the fallback: it is the render function
  applied to 7.
\<close>

theorem stale_entry_shown_for_pending_value:
  "let s = run [Attempt (PromiseObj 0) ''products'', Fulfil 0 (Data 7)]
             (initial (\<lambda>p. Pending) 2)
   in promises s 1 = Pending
      \<and> fst (render (Stream (PromiseObj 1) (Some (Inl ''skeleton'')) Inr ''products'') s)
          = Shown (Some (Inr (Data (7::nat))))"
  by (simp add: render_Stream_fst eval_defs)

text \<open>
  C8, amended: \<open>Stream\<close> builds a suspend boundary whose only child is the component
  that calls the resolver, so the resolver runs inside the boundary and the composed view
  never passes a suspension on to the parent. For a synchronous value the composed view
  is the render function applied to it. For a promise p built by the \<^verbatim>\<open>Promise\<close>
  constructor and a key that the cache does not hold yet, or holds for p itself: while p
  is pending the component alone would suspend on p, and the composed view is the
  fallback; once p has fulfilled with a value, the composed view is the render function
  applied to that value. Under a key that already caches a computation, the composed view
  for any promise follows the cached computation: the fallback while it is pending, the
  render function applied to its value once it has fulfilled, its error once it has
  rejected. For an instance of a subclass under a key the cache does not hold, the
  composed view is the fallback and the key caches the new promise made for it.
\<close>

theorem stream_nests_resolver_inside_boundary:
  "Stream x fb ch k = SuspenseEl fb (UseStreamableEl x ch k)
   \<and> (\<forall>q. fst (render (Stream x fb ch k) s) \<noteq> Suspended q)
   \<and> (\<not> isPromise v \<longrightarrow> fst (render (Stream v fb ch k) s) = Shown (Some (ch v)))
   \<and> ((promiseCache s k = None \<or> promiseCache s k = Some p) \<and> promises s p = Pending \<longrightarrow>
        fst (render (UseStreamableEl (PromiseObj p) ch k) s) = Suspended p
        \<and> fst (render (Stream (PromiseObj p) fb ch k) s) = Shown fb
        \<and> fst (render (Stream (PromiseObj p) fb ch k)
             (settle p (Fulfilled r) (snd (render (Stream (PromiseObj p) fb ch k) s))))
            = Shown (Some (ch r)))
   \<and> (isPromise x \<and> promiseCache s k = Some c \<longrightarrow>
        fst (render (Stream x fb ch k) s) =
          (case promises s c of
             Pending \<Rightarrow> Shown fb
           | Fulfilled r \<Rightarrow> Shown (Some (ch r))
           | Rejected e \<Rightarrow> Thrown e))
   \<and> (promiseCache s k = None \<longrightarrow>
        fst (render (Stream (SubPromiseObj p) fb ch k) s) = Shown fb
        \<and> promiseCache (snd (render (Stream (SubPromiseObj p) fb ch k) s)) k
            = Some (next_pid s))"
proof -
  have fresh_sub: "fst (render (Stream (SubPromiseObj p) fb ch k) s) = Shown fb"
    "promiseCache (snd (render (Stream (SubPromiseObj p) fb ch k) s)) k = Some (next_pid s)"
    if "promiseCache s k = None"
    using that by (simp_all add: render_Stream_fst render_Stream_snd useStreamable_miss_sub)
  have nested: "Stream x fb ch k = SuspenseEl fb (UseStreamableEl x ch k)"
    by (simp add: Stream_def)
  have caught: "\<forall>q. fst (render (Stream x fb ch k) s) \<noteq> Suspended q"
    by (simp add: render_Stream_fst split: outcome.splits)
  have sync: "fst (render (Stream v fb ch k) s) = Shown (Some (ch v))" if "\<not> isPromise v"
    using that by (simp add: render_Stream_fst useStreamable_sync)
  have cached: "fst (render (Stream x fb ch k) s) =
      (case promises s c of
         Pending \<Rightarrow> Shown fb
       | Fulfilled r \<Rightarrow> Shown (Some (ch r))
       | Rejected e \<Rightarrow> Thrown e)"
    if "isPromise x" "promiseCache s k = Some c"
    using that by (simp add: render_Stream_fst useStreamable_hit use_def split: pstate.splits)
  have pending:
    "fst (render (UseStreamableEl (PromiseObj p) ch k) s) = Suspended p"
    "fst (render (Stream (PromiseObj p) fb ch k) s) = Shown fb"
    "fst (render (Stream (PromiseObj p) fb ch k)
       (settle p (Fulfilled r) (snd (render (Stream (PromiseObj p) fb ch k) s))))
      = Shown (Some (ch r))"
    if c: "promiseCache s k = None \<or> promiseCache s k = Some p" and pend: "promises s p = Pending"
  proof -
    let ?s1 = "snd (useStreamable (PromiseObj p) k s)"
    have first: "fst (useStreamable (PromiseObj p) k s) = Suspend p"
      using c pend by (auto simp add: useStreamable_hit useStreamable_miss use_def)
    show "fst (render (UseStreamableEl (PromiseObj p) ch k) s) = Suspended p"
      using first by (simp add: UseStreamable_fst)
    show "fst (render (Stream (PromiseObj p) fb ch k) s) = Shown fb"
      using first by (simp add: render_Stream_fst)
    have c1: "promiseCache (settle p (Fulfilled r) ?s1) k = Some p"
      using c by (auto simp add: useStreamable_hit useStreamable_miss)
    have "promises ?s1 = promises s"
      using useStreamable_direct_frame [of "PromiseObj p" k s] by simp
    then have "promises (settle p (Fulfilled r) ?s1) p = Fulfilled r"
      using pend by (simp add: settle_def)
    with c1 have "fst (useStreamable (PromiseObj p) k (settle p (Fulfilled r) ?s1)) = Ready r"
      by (simp add: useStreamable_hit use_def)
    then show "fst (render (Stream (PromiseObj p) fb ch k)
       (settle p (Fulfilled r) (snd (render (Stream (PromiseObj p) fb ch k) s))))
      = Shown (Some (ch r))"
      by (simp add: render_Stream_fst render_Stream_snd)
  qed
  show ?thesis
    using nested caught sync cached pending fresh_sub by blast
qed

text \<open>
  C8 amended, at the spec's scenarios for the key \<open>products\<close>, with the product
  list's render function (the empty state for an empty array, the grid otherwise): an
  array of three items available at once shows the grid with no fallback; a promise that
  later fulfils with the empty array shows the fallback, then the empty state, also for
  another promise handed over under the key afterwards.
\<close>

theorem stream_nests_resolver_inside_boundary_witness:
  "\<not> isPromise (Data [1, 2, 3 :: nat])
   \<and> fst (render
        (Stream (Data [1, 2, 3 :: nat]) (Some ''skeleton'')
           (\<lambda>v. if v = Data [] then ''empty state'' else ''grid'') ''products'')
        (initial (\<lambda>p. Pending) 1)) = Shown (Some ''grid'')
   \<and> (promiseCache (initial (\<lambda>p. Pending :: nat list pstate) 1) ''products'' = None
        \<or> promiseCache (initial (\<lambda>p. Pending :: nat list pstate) 1) ''products'' = Some 0)
   \<and> promises (initial (\<lambda>p. Pending :: nat list pstate) 1) 0 = Pending
   \<and> fst (render
        (Stream (PromiseObj 0) (Some ''skeleton'')
           (\<lambda>v. if v = Data [] then ''empty state'' else ''grid'') ''products'')
        (initial (\<lambda>p. Pending :: nat list pstate) 1)) = Shown (Some ''skeleton'')
   \<and> fst (render
        (Stream (PromiseObj 0) (Some ''skeleton'')
           (\<lambda>v. if v = Data [] then ''empty state'' else ''grid'') ''products'')
        (settle 0 (Fulfilled (Data []))
           (snd (render
              (Stream (PromiseObj 0) (Some ''skeleton'')
                 (\<lambda>v. if v = Data [] then ''empty state'' else ''grid'') ''products'')
              (initial (\<lambda>p. Pending :: nat list pstate) 1))))) = Shown (Some ''empty state'')
   \<and> isPromise (SubPromiseObj 5 :: nat list jsval)
   \<and> promiseCache
        (settle 0 (Fulfilled (Data []))
           (snd (useStreamable (PromiseObj 0) ''products''
              (initial (\<lambda>p. Pending :: nat list pstate) 1)))) ''products'' = Some 0
   \<and> fst (render
        (Stream (SubPromiseObj 5) (Some ''skeleton'')
           (\<lambda>v. if v = Data [] then ''empty state'' else ''grid'') ''products'')
        (settle 0 (Fulfilled (Data []))
           (snd (useStreamable (PromiseObj 0) ''products''
              (initial (\<lambda>p. Pending :: nat list pstate) 1))))) = Shown (Some ''empty state'')"
  using stream_nests_resolver_inside_boundary
    [where v = "Data [1, 2, 3 :: nat]" and fb = "Some ''skeleton''"
       and ch = "\<lambda>v. if v = Data [] then ''empty state'' else ''grid''"
       and k = "''products''" and s = "initial (\<lambda>p. Pending :: nat list pstate) 1"
       and p = 0 and r = "Data []" and x = "PromiseObj 0" and c = 0, THEN conjunct2]
    stream_nests_resolver_inside_boundary
    [where v = "Data [1, 2, 3 :: nat]" and fb = "Some ''skeleton''"
       and ch = "\<lambda>v. if v = Data [] then ''empty state'' else ''grid''"
       and k = "''products''"
       and s = "settle 0 (Fulfilled (Data []))
           (snd (useStreamable (PromiseObj 0) ''products''
              (initial (\<lambda>p. Pending :: nat list pstate) 1)))"
       and p = 0 and r = "Data []" and x = "SubPromiseObj 5" and c = 0, THEN conjunct2]
  by (simp add: eval_defs render_Stream_snd)

end
